theory Spec2Isabelle
  imports Main "HOL-Library.AList"
begin

section \<open>String operations of the source\<close>

text \<open>
  Message texts and codes are Python strings; they are modelled as \<open>string\<close>, that is as
  lists of characters with code points below 256. \<open>startswith\<close>, \<open>strip\<close>, \<open>split\<close> and
  \<open>replace\<close> are the \<open>str\<close> methods that \<open>process_updates\<close> calls.
\<close>

definition startswith :: "string \<Rightarrow> string \<Rightarrow> bool" where
  "startswith s p = (take (length p) s = p)"

text \<open>\<open>str.isspace\<close> on one character: the code points 9-13, 28-32, 133 and 160.\<close>

definition isspace :: "char \<Rightarrow> bool" where
  "isspace c = (let n = (of_char c :: nat) in
     (9 \<le> n \<and> n \<le> 13) \<or> (28 \<le> n \<and> n \<le> 32) \<or> n = 133 \<or> n = 160)"

text \<open>\<open>s.strip()\<close>: whitespace removed at both ends.\<close>

definition strip :: "string \<Rightarrow> string" where
  "strip s = rev (dropWhile isspace (rev (dropWhile isspace s)))"

text \<open>\<open>s.split(sep)\<close> for a one-character separator; the result is never empty.\<close>

fun str_split :: "char \<Rightarrow> string \<Rightarrow> string list" where
  "str_split sep [] = [] # []"
| "str_split sep (c # cs) =
     (if c = sep then [] # str_split sep cs
      else (case str_split sep cs of
              [] \<Rightarrow> [c] # []
            | l # ls \<Rightarrow> (c # l) # ls))"

text \<open>
  \<open>s.replace(old, new)\<close> for a non-empty \<open>old\<close>: every occurrence of \<open>old\<close>, found from
  left to right without overlap, is replaced by \<open>new\<close>.
\<close>

function str_replace :: "string \<Rightarrow> string \<Rightarrow> string \<Rightarrow> string" where
  "str_replace old new [] = []"
| "str_replace old new (c # cs) =
     (if old \<noteq> [] \<and> take (length old) (c # cs) = old
      then new @ str_replace old new (drop (length old) (c # cs))
      else c # str_replace old new cs)"
  by pat_completeness auto
termination
  by (relation "measure (\<lambda>(old, new, s). length s)") auto

definition newline :: char where
  "newline = CHR 0x0A"

section \<open>Data model\<close>

text \<open>
  The state blob \<open>{"config": {...}, "codes": {code: {"is_used": bool}}}\<close>. A Python dict
  keeps its keys in insertion order and \<open>/get\<close> takes the first unused code in that
  order, so \<open>codes\<close> is an association list: \<open>AList.update\<close> is \<open>d[k] = v\<close> (in place
  for a key that is present, appended for a new one) and \<open>AList.map_entry\<close> is the
  in-place change of the value stored under a key.
\<close>

record code_data =
  is_used :: bool

type_synonym codes = "(string \<times> code_data) list"

record bot_config =
  target_chat_id :: "int option"
  target_thread_id :: "int option"

record app_state =
  config :: bot_config
  codes :: codes

text \<open>The fields of an incoming update that the source reads.\<close>

record message =
  chat_id :: int
  message_thread_id :: "int option"
  from_user :: "int option"
  msg_text :: "string option"
  is_topic_message :: bool

record tg_update =
  update_id :: int
  message :: "message option"

datatype error = GatewayError

text \<open>
  The texts the bot sends, one constructor for each literal of the source, with the
  values interpolated into it.
\<close>

datatype bot_text =
    OnlyAdmin
  | MustBeAdmin
  | UseInsideTopic
  | TopicBound
  | CodeSent string nat
  | CodesExhausted
  | AddUsage
  | CodesAdded nat nat
  | NothingAdded

text \<open>
  The calls to the messaging gateway made while a batch is processed, in the order they
  are issued: \<open>bot.get_chat_member\<close>, \<open>message.reply\<close> and \<open>bot.send_message\<close>.
\<close>

datatype gateway_call =
    GetChatMember int int
  | Reply message bot_text
  | SendMessage "int option" "int option" bot_text

text \<open>The local variables of the loop in \<open>process_updates\<close>, and the calls issued so far.\<close>

record run_state =
  bot_data :: app_state
  data_changed :: bool
  calls :: "gateway_call list"

text \<open>
  The store: the two keys, and the log of the \<open>set\<close> commands it has received.
\<close>

datatype store_write = SetData app_state | SetOffset int

record redis_state =
  data_key :: "app_state option"
  offset_key :: "int option"
  set_log :: "store_write list"

section \<open>The update processor when every reply and send succeeds\<close>

text \<open>
  The loop of \<open>process_updates\<close> is given twice. This section follows the source on the
  runs where no \<open>message.reply\<close> and no \<open>bot.send_message\<close> raises (the role lookup may
  raise: it is inside the \<open>try\<close>). The next section adds the raising calls.
\<close>

definition reply :: "run_state \<Rightarrow> message \<Rightarrow> bot_text \<Rightarrow> run_state" where
  "reply st m txt = st\<lparr>calls := calls st @ [Reply m txt]\<rparr>"

text \<open>
  The \<open>/set_topic\<close> branch (lines 78-97). A message without sender makes
  \<open>message.from_user.id\<close> raise inside the \<open>try\<close>, before any lookup is sent.
\<close>

definition set_topic ::
  "(int \<Rightarrow> int \<Rightarrow> error + string) \<Rightarrow> run_state \<Rightarrow> message \<Rightarrow> run_state" where
  "set_topic get_chat_member st m =
     (case from_user m of
        None \<Rightarrow> reply st m MustBeAdmin
      | Some uid \<Rightarrow>
          (let st1 = st\<lparr>calls := calls st @ [GetChatMember (chat_id m) uid]\<rparr> in
           case get_chat_member (chat_id m) uid of
             Inl e \<Rightarrow> reply st1 m MustBeAdmin
           | Inr status \<Rightarrow>
               if status \<notin> set [''administrator'', ''creator'']
               then reply st1 m OnlyAdmin
               else if \<not> is_topic_message m
               then reply st1 m UseInsideTopic
               else (reply
                 (st1\<lparr>bot_data := (bot_data st1)\<lparr>config := (config (bot_data st1))
                    \<lparr>target_chat_id := Some (chat_id m),
                     target_thread_id := message_thread_id m\<rparr>\<rparr>\<rparr>)
                 m TopicBound)\<lparr>data_changed := True\<rparr>))"

definition is_correct_topic :: "app_state \<Rightarrow> message \<Rightarrow> bool" where
  "is_correct_topic d m =
     (Some (chat_id m) = target_chat_id (config d) \<and>
      message_thread_id m = target_thread_id (config d))"

definition unused :: "string \<times> code_data \<Rightarrow> bool" where
  "unused e = (\<not> is_used (snd e))"

text \<open>\<open>next((code for code, data in codes.items() if not data.get("is_used")), None)\<close>\<close>

definition first_unused :: "codes \<Rightarrow> string option" where
  "first_unused cs = (case filter unused cs of [] \<Rightarrow> None | e # es \<Rightarrow> Some (fst e))"

text \<open>\<open>sum(1 for data in codes.values() if not data.get("is_used", False))\<close>\<close>

definition remaining_count :: "codes \<Rightarrow> nat" where
  "remaining_count cs = length (filter unused cs)"

text \<open>
  The \<open>/get\<close> branch (lines 111-123). \<open>if code_to_send:\<close> is false for \<open>None\<close> and for
  the empty string.
\<close>

definition get_command :: "run_state \<Rightarrow> message \<Rightarrow> run_state" where
  "get_command st m =
     (let target_chat = target_chat_id (config (bot_data st));
          target_thread = target_thread_id (config (bot_data st)) in
      case first_unused (codes (bot_data st)) of
        None \<Rightarrow> reply st m CodesExhausted
      | Some code_to_send \<Rightarrow>
          if code_to_send = [] then reply st m CodesExhausted
          else
            (let cs = AList.map_entry code_to_send (\<lambda>d. d\<lparr>is_used := True\<rparr>)
                        (codes (bot_data st)) in
             st\<lparr>bot_data := (bot_data st)\<lparr>codes := cs\<rparr>,
                calls := calls st @
                  [SendMessage target_chat target_thread
                     (CodeSent code_to_send (remaining_count cs))],
                data_changed := True\<rparr>))"

text \<open>Lines 128-129: the candidate codes of an \<open>/add\<close> message.\<close>

definition candidate_codes :: "string \<Rightarrow> string list" where
  "candidate_codes t =
     (let codes_text = strip (str_replace ''/add'' [] t) in
      map strip (filter (\<lambda>line. strip line \<noteq> []) (str_split newline codes_text)))"

text \<open>Lines 136-139: one round of the insertion loop, on the codes and the counter.\<close>

definition add_code :: "codes \<times> nat \<Rightarrow> string \<Rightarrow> codes \<times> nat" where
  "add_code acc code =
     (if code \<notin> set (map fst (fst acc))
      then (AList.update code \<lparr>is_used = False\<rparr> (fst acc), snd acc + 1)
      else acc)"

text \<open>The \<open>/add\<close> branch (lines 126-146).\<close>

definition add_command :: "run_state \<Rightarrow> message \<Rightarrow> string \<Rightarrow> run_state" where
  "add_command st m t =
     (let cands = candidate_codes t in
      if cands = [] then reply st m AddUsage
      else
        (let r = foldl add_code (codes (bot_data st), 0) cands;
             st1 = st\<lparr>bot_data := (bot_data st)\<lparr>codes := fst r\<rparr>\<rparr> in
         if snd r > 0
         then (reply st1 m (CodesAdded (snd r) (remaining_count (fst r))))
                \<lparr>data_changed := True\<rparr>
         else reply st1 m NothingAdded))"

text \<open>The body of the loop over the batch (lines 70-146).\<close>

definition handle_update ::
  "(int \<Rightarrow> int \<Rightarrow> error + string) \<Rightarrow> run_state \<Rightarrow> tg_update \<Rightarrow> run_state" where
  "handle_update get_chat_member st u =
     (case message u of
        None \<Rightarrow> st
      | Some m \<Rightarrow>
          (case msg_text m of
             None \<Rightarrow> st
           | Some t \<Rightarrow>
               if t = [] then st
               else if startswith t ''/set_topic'' then set_topic get_chat_member st m
               else if \<not> is_correct_topic (bot_data st) m then st
               else
                 (let st1 = (if startswith t ''/get'' then get_command st m else st) in
                  if startswith t ''/add'' then add_command st1 m t else st1)))"

definition process_batch ::
  "(int \<Rightarrow> int \<Rightarrow> error + string) \<Rightarrow> run_state \<Rightarrow> tg_update list \<Rightarrow> run_state" where
  "process_batch get_chat_member st updates = foldl (handle_update get_chat_member) st updates"

section \<open>The update processor with calls that raise\<close>

text \<open>
  Whether an outbound call raises is the gateway's choice: \<open>raises h c\<close> says that the call
  \<open>c\<close>, made after the calls \<open>h\<close>, raises. The source handles no exception of a reply
  or a send, except in the \<open>try\<close> of lines 79-86; a call that raises elsewhere ends
  \<open>process_updates\<close> at once. \<open>Raised cs\<close> is that outcome, \<open>cs\<close> being the calls made up to
  and including the one that raised.
\<close>

datatype raised = Raised "gateway_call list"

definition try_call ::
  "(gateway_call list \<Rightarrow> gateway_call \<Rightarrow> bool) \<Rightarrow> run_state \<Rightarrow> gateway_call \<Rightarrow>
   raised + run_state" where
  "try_call raises st c =
     (if raises (calls st) c then Inl (Raised (calls st @ [c]))
      else Inr (st\<lparr>calls := calls st @ [c]\<rparr>))"

text \<open>
  Lines 78-97. The reply of line 82 is inside the \<open>try\<close>: when it raises, line 85 sends
  the other reply. In lines 92-96 the binding is set before the reply and the flag after
  it.
\<close>

definition set_topic_exn ::
  "(gateway_call list \<Rightarrow> gateway_call \<Rightarrow> bool) \<Rightarrow> (int \<Rightarrow> int \<Rightarrow> error + string) \<Rightarrow>
   run_state \<Rightarrow> message \<Rightarrow> raised + run_state" where
  "set_topic_exn raises get_chat_member st m =
     (case from_user m of
        None \<Rightarrow> try_call raises st (Reply m MustBeAdmin)
      | Some uid \<Rightarrow>
          (let st1 = st\<lparr>calls := calls st @ [GetChatMember (chat_id m) uid]\<rparr> in
           case get_chat_member (chat_id m) uid of
             Inl e \<Rightarrow> try_call raises st1 (Reply m MustBeAdmin)
           | Inr status \<Rightarrow>
               if status \<notin> set [''administrator'', ''creator'']
               then (case try_call raises st1 (Reply m OnlyAdmin) of
                       Inl (Raised cs) \<Rightarrow> try_call raises (st1\<lparr>calls := cs\<rparr>) (Reply m MustBeAdmin)
                     | Inr st2 \<Rightarrow> Inr st2)
               else if \<not> is_topic_message m
               then try_call raises st1 (Reply m UseInsideTopic)
               else (case try_call raises
                       (st1\<lparr>bot_data := (bot_data st1)\<lparr>config := (config (bot_data st1))
                          \<lparr>target_chat_id := Some (chat_id m),
                           target_thread_id := message_thread_id m\<rparr>\<rparr>\<rparr>)
                       (Reply m TopicBound) of
                       Inl x \<Rightarrow> Inl x
                     | Inr st2 \<Rightarrow> Inr (st2\<lparr>data_changed := True\<rparr>))))"

text \<open>Lines 111-123: the code is marked used before the send, the flag is set after it.\<close>

definition get_command_exn ::
  "(gateway_call list \<Rightarrow> gateway_call \<Rightarrow> bool) \<Rightarrow> run_state \<Rightarrow> message \<Rightarrow>
   raised + run_state" where
  "get_command_exn raises st m =
     (let target_chat = target_chat_id (config (bot_data st));
          target_thread = target_thread_id (config (bot_data st)) in
      case first_unused (codes (bot_data st)) of
        None \<Rightarrow> try_call raises st (Reply m CodesExhausted)
      | Some code_to_send \<Rightarrow>
          if code_to_send = [] then try_call raises st (Reply m CodesExhausted)
          else
            (let cs = AList.map_entry code_to_send (\<lambda>d. d\<lparr>is_used := True\<rparr>)
                        (codes (bot_data st)) in
             case try_call raises (st\<lparr>bot_data := (bot_data st)\<lparr>codes := cs\<rparr>\<rparr>)
                    (SendMessage target_chat target_thread
                       (CodeSent code_to_send (remaining_count cs))) of
               Inl x \<Rightarrow> Inl x
             | Inr st2 \<Rightarrow> Inr (st2\<lparr>data_changed := True\<rparr>)))"

text \<open>Lines 126-146.\<close>

definition add_command_exn ::
  "(gateway_call list \<Rightarrow> gateway_call \<Rightarrow> bool) \<Rightarrow> run_state \<Rightarrow> message \<Rightarrow> string \<Rightarrow>
   raised + run_state" where
  "add_command_exn raises st m t =
     (let cands = candidate_codes t in
      if cands = [] then try_call raises st (Reply m AddUsage)
      else
        (let r = foldl add_code (codes (bot_data st), 0) cands;
             st1 = st\<lparr>bot_data := (bot_data st)\<lparr>codes := fst r\<rparr>\<rparr> in
         if snd r > 0
         then (case try_call raises st1
                      (Reply m (CodesAdded (snd r) (remaining_count (fst r)))) of
                 Inl x \<Rightarrow> Inl x
               | Inr st2 \<Rightarrow> Inr (st2\<lparr>data_changed := True\<rparr>))
         else try_call raises st1 (Reply m NothingAdded)))"

text \<open>The body of the loop (lines 70-146).\<close>

definition handle_update_exn ::
  "(gateway_call list \<Rightarrow> gateway_call \<Rightarrow> bool) \<Rightarrow> (int \<Rightarrow> int \<Rightarrow> error + string) \<Rightarrow>
   run_state \<Rightarrow> tg_update \<Rightarrow> raised + run_state" where
  "handle_update_exn raises get_chat_member st u =
     (case message u of
        None \<Rightarrow> Inr st
      | Some m \<Rightarrow>
          (case msg_text m of
             None \<Rightarrow> Inr st
           | Some t \<Rightarrow>
               if t = [] then Inr st
               else if startswith t ''/set_topic''
               then set_topic_exn raises get_chat_member st m
               else if \<not> is_correct_topic (bot_data st) m then Inr st
               else
                 (case (if startswith t ''/get'' then get_command_exn raises st m
                        else Inr st) of
                    Inl x \<Rightarrow> Inl x
                  | Inr st1 \<Rightarrow>
                      if startswith t ''/add'' then add_command_exn raises st1 m t
                      else Inr st1)))"

text \<open>The loop: it stops at the first call that raises.\<close>

fun process_batch_exn ::
  "(gateway_call list \<Rightarrow> gateway_call \<Rightarrow> bool) \<Rightarrow> (int \<Rightarrow> int \<Rightarrow> error + string) \<Rightarrow>
   run_state \<Rightarrow> tg_update list \<Rightarrow> raised + run_state" where
  "process_batch_exn raises get_chat_member st [] = Inr st"
| "process_batch_exn raises get_chat_member st (u # us) =
     (case handle_update_exn raises get_chat_member st u of
        Inl x \<Rightarrow> Inl x
      | Inr st1 \<Rightarrow> process_batch_exn raises get_chat_member st1 us)"

section \<open>The invocation\<close>

definition default_data :: app_state where
  "default_data = \<lparr>config = \<lparr>target_chat_id = None, target_thread_id = None\<rparr>, codes = []\<rparr>"

definition load_data :: "redis_state \<Rightarrow> app_state" where
  "load_data r = (case data_key r of Some d \<Rightarrow> d | None \<Rightarrow> default_data)"

definition save_data :: "app_state \<Rightarrow> redis_state \<Rightarrow> redis_state" where
  "save_data d r = r\<lparr>data_key := Some d, set_log := set_log r @ [SetData d]\<rparr>"

definition set_offset :: "int \<Rightarrow> redis_state \<Rightarrow> redis_state" where
  "set_offset n r = r\<lparr>offset_key := Some n, set_log := set_log r @ [SetOffset n]\<rparr>"

text \<open>
  What one invocation leaves behind: the store, the gateway calls made, and whether
  \<open>process_updates\<close> ended by an exception instead of returning.
\<close>

record outcome =
  store :: redis_state
  issued :: "gateway_call list"
  aborted :: bool

text \<open>
  \<open>process_updates\<close> (lines 47-155). Its surroundings are the gateway's answer to
  \<open>get_updates\<close> as a function of the offset asked for, its answer to the role lookups,
  the outbound calls that raise, the store writes that raise (\<open>set_raises\<close>), and the store
  before the run. A fetch that raises is caught (line 57) and the function returns; no
  other exception is: a reply or send that raises in the loop, or a write that raises in
  lines 150 or 153, skips everything after it.
\<close>

definition process_updates ::
  "(int option \<Rightarrow> error + tg_update list) \<Rightarrow> (int \<Rightarrow> int \<Rightarrow> error + string) \<Rightarrow>
   (gateway_call list \<Rightarrow> gateway_call \<Rightarrow> bool) \<Rightarrow> (store_write \<Rightarrow> bool) \<Rightarrow>
   redis_state \<Rightarrow> outcome" where
  "process_updates get_updates get_chat_member raises set_raises r =
     (let d = load_data r;
          offset = map_option (\<lambda>n. n + 1) (offset_key r) in
      case get_updates offset of
        Inl e \<Rightarrow> \<lparr>store = r, issued = [], aborted = False\<rparr>
      | Inr updates \<Rightarrow>
          if updates = [] then \<lparr>store = r, issued = [], aborted = False\<rparr>
          else
            (case process_batch_exn raises get_chat_member
                    \<lparr>bot_data = d, data_changed = False, calls = []\<rparr> updates of
               Inl (Raised cs) \<Rightarrow> \<lparr>store = r, issued = cs, aborted = True\<rparr>
             | Inr st \<Rightarrow>
                 if data_changed st \<and> set_raises (SetData (bot_data st))
                 then \<lparr>store = r, issued = calls st, aborted = True\<rparr>
                 else
                   (let r1 = (if data_changed st then save_data (bot_data st) r else r) in
                    if updates \<noteq> [] then
                      (if set_raises (SetOffset (update_id (last updates)))
                       then \<lparr>store = r1, issued = calls st, aborted = True\<rparr>
                       else \<lparr>store = set_offset (update_id (last updates)) r1,
                             issued = calls st, aborted = False\<rparr>)
                    else \<lparr>store = r1, issued = calls st, aborted = False\<rparr>)))"

section \<open>Notions used to state the properties\<close>

text \<open>The codes that are still unused, in the order \<open>/get\<close> hands them out.\<close>

definition unused_codes :: "codes \<Rightarrow> string list" where
  "unused_codes cs = map fst (filter unused cs)"

text \<open>The inventory in which every code has been handed out.\<close>

definition all_used :: "codes \<Rightarrow> codes" where
  "all_used cs = map (\<lambda>e. (fst e, (snd e)\<lparr>is_used := True\<rparr>)) cs"

text \<open>An update that carries an allocate command sent in chat \<open>c\<close>, thread \<open>th\<close>.\<close>

definition get_in_topic :: "int \<Rightarrow> int option \<Rightarrow> tg_update \<Rightarrow> bool" where
  "get_in_topic c th u =
     (case message u of
        None \<Rightarrow> False
      | Some m \<Rightarrow> chat_id m = c \<and> message_thread_id m = th \<and>
          (case msg_text m of None \<Rightarrow> False | Some t \<Rightarrow> startswith t ''/get''))"

text \<open>
  The candidates of an add command that are inserted: those not among the keys \<open>seen\<close>,
  each once, in the order of their first occurrence.
\<close>

fun new_codes :: "string list \<Rightarrow> string list \<Rightarrow> string list" where
  "new_codes seen [] = []"
| "new_codes seen (c # cs) =
     (if c \<in> set seen then new_codes seen cs else c # new_codes (seen @ [c]) cs)"

definition fresh :: "string \<Rightarrow> string \<times> code_data" where
  "fresh c = (c, \<lparr>is_used = False\<rparr>)"

text \<open>
  The candidate codes as the specification words them: the command token at the head of
  the text is removed, the rest is split into lines, each line is trimmed, and the empty
  lines are dropped.
\<close>

definition spec_candidate_codes :: "string \<Rightarrow> string list" where
  "spec_candidate_codes t =
     filter (\<lambda>line. line \<noteq> []) (map strip (str_split newline (drop (length ''/add'') t)))"

text \<open>Every code of \<open>cs\<close> is still a code of \<open>cs'\<close>, and is used there if it was used.\<close>

definition kept :: "codes \<Rightarrow> codes \<Rightarrow> bool" where
  "kept cs cs' = (\<forall>k d. map_of cs k = Some d \<longrightarrow>
       (\<exists>d'. map_of cs' k = Some d' \<and> (is_used d \<longrightarrow> is_used d')))"

text \<open>
  An inventory as a dict built by the add command holds it: no key twice (as in every
  dict) and no empty code.
\<close>

definition wf_codes :: "codes \<Rightarrow> bool" where
  "wf_codes cs = (distinct (map fst cs) \<and> [] \<notin> set (map fst cs))"

text \<open>
  The mutation flag follows the data: from \<open>st\<close> to \<open>st'\<close> the flag is never cleared, and
  the data differ only if the flag is set afterwards.
\<close>

definition flag_tracks :: "run_state \<Rightarrow> run_state \<Rightarrow> bool" where
  "flag_tracks st st' =
     ((data_changed st \<longrightarrow> data_changed st') \<and>
      (\<not> data_changed st' \<longrightarrow> bot_data st' = bot_data st))"

definition is_offset_write :: "store_write \<Rightarrow> bool" where
  "is_offset_write w = (case w of SetOffset n \<Rightarrow> True | SetData d \<Rightarrow> False)"

section \<open>Sample inputs\<close>

text \<open>User 7 is an administrator, user 8 an ordinary member; other lookups fail.\<close>

definition sample_roles :: "int \<Rightarrow> int \<Rightarrow> error + string" where
  "sample_roles c uid =
     (if uid = 7 then Inr ''administrator''
      else if uid = 8 then Inr ''member''
      else Inl GatewayError)"

definition topic_msg :: "int \<Rightarrow> string \<Rightarrow> message" where
  "topic_msg uid t = \<lparr>chat_id = 1, message_thread_id = Some 5, from_user = Some uid,
     msg_text = Some t, is_topic_message = True\<rparr>"

definition other_msg :: "int \<Rightarrow> string \<Rightarrow> message" where
  "other_msg uid t = \<lparr>chat_id = 2, message_thread_id = Some 9, from_user = Some uid,
     msg_text = Some t, is_topic_message = True\<rparr>"

definition upd :: "int \<Rightarrow> message \<Rightarrow> tg_update" where
  "upd n m = \<lparr>update_id = n, message = Some m\<rparr>"

definition bound_state :: "codes \<Rightarrow> app_state" where
  "bound_state cs =
     \<lparr>config = \<lparr>target_chat_id = Some 1, target_thread_id = Some 5\<rparr>, codes = cs\<rparr>"

definition start :: "app_state \<Rightarrow> run_state" where
  "start d = \<lparr>bot_data = d, data_changed = False, calls = []\<rparr>"

definition used_code :: "string \<Rightarrow> string \<times> code_data" where
  "used_code c = (c, \<lparr>is_used = True\<rparr>)"

definition empty_store :: redis_state where
  "empty_store = \<lparr>data_key = None, offset_key = None, set_log = []\<rparr>"

definition fetch_fixed :: "tg_update list \<Rightarrow> int option \<Rightarrow> error + tg_update list" where
  "fetch_fixed us offset = Inr us"

definition fetch_failing :: "int option \<Rightarrow> error + tg_update list" where
  "fetch_failing offset = Inl GatewayError"

text \<open>
  Gateways: one on which no reply or send raises, one on which every send to a chat
  raises, one on which every reply raises. Stores: one that accepts every write.
\<close>

definition all_delivered :: "gateway_call list \<Rightarrow> gateway_call \<Rightarrow> bool" where
  "all_delivered h c = False"

definition sends_raise :: "gateway_call list \<Rightarrow> gateway_call \<Rightarrow> bool" where
  "sends_raise h c = (case c of SendMessage chat thread txt \<Rightarrow> True | _ \<Rightarrow> False)"

definition replies_raise :: "gateway_call list \<Rightarrow> gateway_call \<Rightarrow> bool" where
  "replies_raise h c = (case c of Reply m txt \<Rightarrow> True | _ \<Rightarrow> False)"

definition store_up :: "store_write \<Rightarrow> bool" where
  "store_up w = False"

definition bound_store :: "codes \<Rightarrow> redis_state" where
  "bound_store cs = \<lparr>data_key = Some (bound_state cs), offset_key = Some 9, set_log = []\<rparr>"

section \<open>Command prefixes\<close>

lemma add_prefix:
  assumes "startswith t ''/add''"
  shows "t \<noteq> [] \<and> \<not> startswith t ''/get'' \<and> \<not> startswith t ''/set_topic''"
proof -
  from assms have "take (length ''/add'') t = ''/add''" by (simp only: startswith_def)
  then obtain rest where "t = ''/add'' @ rest" by (metis append_take_drop_id)
  then show ?thesis by (simp add: startswith_def)
qed

lemma get_prefix:
  assumes "startswith t ''/get''"
  shows "t \<noteq> [] \<and> \<not> startswith t ''/add'' \<and> \<not> startswith t ''/set_topic''"
proof -
  from assms have "take (length ''/get'') t = ''/get''" by (simp only: startswith_def)
  then obtain rest where "t = ''/get'' @ rest" by (metis append_take_drop_id)
  then show ?thesis by (simp add: startswith_def)
qed

lemma handle_add:
  assumes "message u = Some m" "msg_text m = Some t" "startswith t ''/add''"
    and "is_correct_topic (bot_data st) m"
  shows "handle_update gcm st u = add_command st m t"
  using assms add_prefix[OF assms(3)] by (simp add: handle_update_def)

lemma handle_get:
  assumes "message u = Some m" "msg_text m = Some t" "startswith t ''/get''"
    and "is_correct_topic (bot_data st) m"
  shows "handle_update gcm st u = get_command st m"
  using assms get_prefix[OF assms(3)] by (simp add: handle_update_def)

section \<open>Allocation\<close>

lemma filter_unused_map_entry:
  "distinct (map fst cs) \<Longrightarrow> filter unused cs = e # es \<Longrightarrow>
   filter unused (AList.map_entry (fst e) (\<lambda>d. d\<lparr>is_used := True\<rparr>) cs) = es"
proof (induction cs)
  case Nil
  then show ?case by simp
next
  case (Cons p cs)
  show ?case
  proof (cases "unused p")
    case True
    with Cons.prems(2) have e: "e = p" and es: "es = filter unused cs" by simp_all
    have "\<not> unused (fst p, (snd p)\<lparr>is_used := True\<rparr>)" by (simp add: unused_def)
    then show ?thesis using e es by simp
  next
    case False
    with Cons.prems(2) have f: "filter unused cs = e # es" by simp
    have "e \<in> set (e # es)" by simp
    then have "e \<in> set (filter unused cs)" by (simp only: f)
    then have "e \<in> set cs" by simp
    then have "fst e \<in> fst ` set cs" by (rule imageI)
    moreover have "fst p \<notin> fst ` set cs" using Cons.prems(1) by simp
    ultimately have ne: "fst p \<noteq> fst e" by metis
    have d: "distinct (map fst cs)" using Cons.prems(1) by simp
    have "filter unused (AList.map_entry (fst e) (\<lambda>d. d\<lparr>is_used := True\<rparr>) cs) = es"
      using Cons.IH[OF d f] .
    then show ?thesis using ne False by simp
  qed
qed

lemma all_used_map_entry:
  "all_used (AList.map_entry k (\<lambda>d. d\<lparr>is_used := True\<rparr>) cs) = all_used cs"
  by (induction cs) (auto simp: all_used_def)

lemma all_used_none_unused: "filter unused cs = [] \<Longrightarrow> all_used cs = cs"
  by (induction cs) (auto simp: all_used_def unused_def split: if_splits)

lemma get_command_some:
  assumes "distinct (map fst (codes (bot_data st)))"
    and "filter unused (codes (bot_data st)) = e # es" "fst e \<noteq> []"
  shows "get_command st m =
     st\<lparr>bot_data := (bot_data st)\<lparr>codes :=
            AList.map_entry (fst e) (\<lambda>d. d\<lparr>is_used := True\<rparr>) (codes (bot_data st))\<rparr>,
        calls := calls st @
          [SendMessage (target_chat_id (config (bot_data st)))
             (target_thread_id (config (bot_data st)))
             (CodeSent (fst e) (length es))],
        data_changed := True\<rparr>"
  using assms filter_unused_map_entry[OF assms(1,2)]
  by (simp add: get_command_def first_unused_def remaining_count_def Let_def)

lemma get_command_none:
  assumes "filter unused (codes (bot_data st)) = []"
  shows "get_command st m = st\<lparr>calls := calls st @ [Reply m CodesExhausted]\<rparr>"
  using assms by (simp add: get_command_def first_unused_def reply_def)

lemma get_run:
  assumes "distinct (map fst (codes (bot_data st)))"
    and "[] \<notin> set (unused_codes (codes (bot_data st)))"
    and "target_chat_id (config (bot_data st)) = Some c"
    and "target_thread_id (config (bot_data st)) = th"
    and "\<forall>u\<in>set updates. get_in_topic c th u"
    and "length updates = length (unused_codes (codes (bot_data st)))"
  shows "process_batch gcm st updates =
     st\<lparr>bot_data := (bot_data st)\<lparr>codes := all_used (codes (bot_data st))\<rparr>,
        calls := calls st @
          map (\<lambda>i. SendMessage (Some c) th
                 (CodeSent (unused_codes (codes (bot_data st)) ! i) (length updates - Suc i)))
              [0..<length updates],
        data_changed := (data_changed st \<or> updates \<noteq> [])\<rparr>"
  using assms
proof (induction updates arbitrary: st)
  case Nil
  then have "filter unused (codes (bot_data st)) = []" by (simp add: unused_codes_def)
  then show ?case by (simp add: process_batch_def all_used_none_unused)
next
  case (Cons u us)
  let ?cs = "codes (bot_data st)"
  from Cons.prems(6) obtain e es where f: "filter unused ?cs = e # es"
    by (cases "filter unused ?cs") (auto simp: unused_codes_def)
  from Cons.prems(2) f have ne: "fst e \<noteq> []" by (auto simp: unused_codes_def)
  from Cons.prems(5) obtain m t where m: "message u = Some m" "msg_text m = Some t"
      "startswith t ''/get''" "chat_id m = c" "message_thread_id m = th"
    by (auto simp: get_in_topic_def split: option.splits)
  have topic: "is_correct_topic (bot_data st) m"
    using m Cons.prems(3,4) by (simp add: is_correct_topic_def)
  let ?cs1 = "AList.map_entry (fst e) (\<lambda>d. d\<lparr>is_used := True\<rparr>) ?cs"
  let ?st1 = "st\<lparr>bot_data := (bot_data st)\<lparr>codes := ?cs1\<rparr>,
        calls := calls st @ [SendMessage (Some c) th (CodeSent (fst e) (length es))],
        data_changed := True\<rparr>"
  have step: "handle_update gcm st u = ?st1"
    using handle_get[OF m(1-3) topic] get_command_some[OF Cons.prems(1) f ne] Cons.prems(3,4)
    by simp
  have f1: "filter unused ?cs1 = es"
    using filter_unused_map_entry[OF Cons.prems(1) f] .
  have len: "length us = length es"
    using Cons.prems(6) f by (simp add: unused_codes_def)
  have ih: "process_batch gcm ?st1 us =
     ?st1\<lparr>bot_data := (bot_data ?st1)\<lparr>codes := all_used (codes (bot_data ?st1))\<rparr>,
        calls := calls ?st1 @
          map (\<lambda>i. SendMessage (Some c) th
                 (CodeSent (unused_codes (codes (bot_data ?st1)) ! i) (length us - Suc i)))
              [0..<length us],
        data_changed := (data_changed ?st1 \<or> us \<noteq> [])\<rparr>"
  proof (rule Cons.IH)
    show "distinct (map fst (codes (bot_data ?st1)))"
      using Cons.prems(1) by (simp add: distinct_map_entry)
    show "[] \<notin> set (unused_codes (codes (bot_data ?st1)))"
      using Cons.prems(2) f f1 by (auto simp: unused_codes_def)
    show "target_chat_id (config (bot_data ?st1)) = Some c" using Cons.prems(3) by simp
    show "target_thread_id (config (bot_data ?st1)) = th" using Cons.prems(4) by simp
    show "\<forall>u\<in>set us. get_in_topic c th u" using Cons.prems(5) by simp
    show "length us = length (unused_codes (codes (bot_data ?st1)))"
      using len f1 by (simp add: unused_codes_def)
  qed
  have "process_batch gcm st (u # us) = process_batch gcm ?st1 us"
    using step by (simp add: process_batch_def)
  also note ih
  finally show ?case
    using f f1 len
    by (simp add: unused_codes_def all_used_map_entry map_upt_Suc del: upt_Suc)
qed

section \<open>Runs in which no call raises\<close>

lemma try_call_delivered:
  "\<not> raises (calls st) c \<Longrightarrow> try_call raises st c = Inr (st\<lparr>calls := calls st @ [c]\<rparr>)"
  by (simp add: try_call_def)

lemma set_topic_exn_delivered:
  "\<forall>h c. \<not> raises h c \<Longrightarrow> set_topic_exn raises gcm st m = Inr (set_topic gcm st m)"
  by (simp add: set_topic_exn_def set_topic_def try_call_def reply_def Let_def
      split: option.splits sum.splits)

lemma get_command_exn_delivered:
  "\<forall>h c. \<not> raises h c \<Longrightarrow> get_command_exn raises st m = Inr (get_command st m)"
  by (simp add: get_command_exn_def get_command_def try_call_def reply_def Let_def
      split: option.splits)

lemma add_command_exn_delivered:
  "\<forall>h c. \<not> raises h c \<Longrightarrow> add_command_exn raises st m t = Inr (add_command st m t)"
  by (simp add: add_command_exn_def add_command_def try_call_def reply_def Let_def)

lemma handle_update_exn_delivered:
  "\<forall>h c. \<not> raises h c \<Longrightarrow>
   handle_update_exn raises gcm st u = Inr (handle_update gcm st u)"
  by (simp add: handle_update_exn_def handle_update_def set_topic_exn_delivered
      get_command_exn_delivered add_command_exn_delivered Let_def split: option.splits)

lemma process_batch_exn_delivered:
  "\<forall>h c. \<not> raises h c \<Longrightarrow>
   process_batch_exn raises gcm st updates = Inr (process_batch gcm st updates)"
proof (induction updates arbitrary: st)
  case Nil
  then show ?case by (simp add: process_batch_def)
next
  case (Cons u us)
  then show ?case
    by (simp add: handle_update_exn_delivered process_batch_def)
qed

text \<open>
  C1 (amended). Let the state be bound to a chat and thread and hold exactly N unused
  codes, none of them the empty string (the add command stores no empty code), and let no
  reply or send raise. N allocate commands sent in the bound thread hand out the N unused
  codes in inventory order, each by a message to the bound thread that carries the code
  and the number of codes still unused after it; the codes handed out are pairwise
  distinct, every code is marked used afterwards, and the batch reports a mutation as soon
  as it holds one command. One more allocate command is answered with the exhaustion reply
  to its sender and changes nothing else.
\<close>

theorem allocate_all_then_exhausted:
  assumes "distinct (map fst (codes (bot_data st)))"
    and "[] \<notin> set (unused_codes (codes (bot_data st)))"
    and "target_chat_id (config (bot_data st)) = Some c"
    and "target_thread_id (config (bot_data st)) = th"
    and "\<forall>u\<in>set updates. get_in_topic c th u"
    and "length updates = remaining_count (codes (bot_data st))"
    and "get_in_topic c th u'" and "message u' = Some m'"
    and "\<forall>h c. \<not> raises h c"
    and "st' = st\<lparr>bot_data := (bot_data st)\<lparr>codes := all_used (codes (bot_data st))\<rparr>,
        calls := calls st @
          map (\<lambda>i. SendMessage (Some c) th
                 (CodeSent (unused_codes (codes (bot_data st)) ! i) (length updates - Suc i)))
              [0..<length updates],
        data_changed := (data_changed st \<or> updates \<noteq> [])\<rparr>"
  shows "process_batch_exn raises gcm st updates = Inr st'
      \<and> distinct (unused_codes (codes (bot_data st)))
      \<and> remaining_count (codes (bot_data st')) = 0
      \<and> handle_update_exn raises gcm st' u'
          = Inr (st'\<lparr>calls := calls st' @ [Reply m' CodesExhausted]\<rparr>)"
proof -
  have len: "length updates = length (unused_codes (codes (bot_data st)))"
    using assms(6) by (simp add: remaining_count_def unused_codes_def)
  have run: "process_batch gcm st updates = st'"
    using get_run[OF assms(1-5) len] assms(10) by simp
  have d: "distinct (unused_codes (codes (bot_data st)))"
    using assms(1) by (simp add: unused_codes_def distinct_map_filter)
  have none: "filter unused (codes (bot_data st')) = []"
    using assms(10) by (simp add: all_used_def unused_def filter_empty_conv)
  from assms(7,8) obtain t where m: "msg_text m' = Some t"
      "startswith t ''/get''" "chat_id m' = c" "message_thread_id m' = th"
    by (auto simp: get_in_topic_def split: option.splits)
  have topic: "is_correct_topic (bot_data st') m'"
    using m assms(3,4,10) by (simp add: is_correct_topic_def)
  have last: "handle_update gcm st' u' = st'\<lparr>calls := calls st' @ [Reply m' CodesExhausted]\<rparr>"
    using handle_get[OF assms(8) m(1,2) topic] get_command_none[OF none] by simp
  have "process_batch_exn raises gcm st updates = Inr st'"
    using process_batch_exn_delivered[OF assms(9)] run by simp
  moreover have "handle_update_exn raises gcm st' u'
      = Inr (st'\<lparr>calls := calls st' @ [Reply m' CodesExhausted]\<rparr>)"
    using handle_update_exn_delivered[OF assms(9)] last by simp
  ultimately show ?thesis using d none by (simp add: remaining_count_def)
qed

section \<open>Topic isolation\<close>

text \<open>
  C2. A message whose text does not begin with the bind prefix, and whose chat and thread
  are not the bound pair (as is always the case while the config is unbound), leaves the
  whole loop state as it was: no reply, no gateway call, no change of the data and no
  change of the mutation flag.
\<close>

theorem other_topic_ignored:
  assumes "message u = Some m"
    and "case msg_text m of None \<Rightarrow> True | Some t \<Rightarrow> \<not> startswith t ''/set_topic''"
    and "\<not> is_correct_topic (bot_data st) m \<or> target_chat_id (config (bot_data st)) = None"
  shows "handle_update gcm st u = st"
  using assms by (auto simp: handle_update_def is_correct_topic_def split: option.splits)

section \<open>Binding\<close>

text \<open>
  C7. A bind command sent as a topic message by a sender whose role lookup answers
  administrator or creator replaces both target ids by the chat and thread of the message
  in a single step of the loop, whatever the binding was before; the step issues the role
  lookup and the confirmation reply, sets the mutation flag, and touches nothing else (no
  other command branch runs: the codes are as before).
\<close>

theorem bind_overwrites_binding:
  assumes "message u = Some m" "msg_text m = Some t" "startswith t ''/set_topic''"
    and "from_user m = Some uid" "gcm (chat_id m) uid = Inr status"
    and "status = ''administrator'' \<or> status = ''creator''"
    and "is_topic_message m"
  shows "handle_update gcm st u =
           st\<lparr>bot_data := (bot_data st)\<lparr>config := (config (bot_data st))
                 \<lparr>target_chat_id := Some (chat_id m),
                  target_thread_id := message_thread_id m\<rparr>\<rparr>,
              calls := calls st @ [GetChatMember (chat_id m) uid, Reply m TopicBound],
              data_changed := True\<rparr>"
proof -
  have "t \<noteq> []" using assms(3) by (auto simp: startswith_def)
  then show ?thesis using assms
    by (auto simp: handle_update_def set_topic_def reply_def Let_def)
qed

text \<open>
  C8. A bind command whose sender cannot be looked up (no sender, or the lookup raises) or
  whose role is neither administrator nor creator is answered with one of the two
  permission-denied replies; the data and the mutation flag are unchanged, no other
  command branch runs, and the loop goes on with the next update.
\<close>

theorem bind_denied_without_role:
  assumes "message u = Some m" "msg_text m = Some t" "startswith t ''/set_topic''"
    and "from_user m = None \<or>
         (\<exists>uid. from_user m = Some uid \<and>
            (case gcm (chat_id m) uid of
               Inl e \<Rightarrow> True
             | Inr status \<Rightarrow> status \<noteq> ''administrator'' \<and> status \<noteq> ''creator''))"
  shows "handle_update gcm st u =
           st\<lparr>calls := calls st @
             (case from_user m of
                None \<Rightarrow> [Reply m MustBeAdmin]
              | Some uid \<Rightarrow> [GetChatMember (chat_id m) uid,
                   Reply m (case gcm (chat_id m) uid of
                              Inl e \<Rightarrow> MustBeAdmin
                            | Inr status \<Rightarrow> OnlyAdmin)])\<rparr>
       \<and> process_batch gcm st (u # us) = process_batch gcm (handle_update gcm st u) us"
proof -
  have ne: "t \<noteq> []" using assms(3) by (auto simp: startswith_def)
  have "handle_update gcm st u =
           st\<lparr>calls := calls st @
             (case from_user m of
                None \<Rightarrow> [Reply m MustBeAdmin]
              | Some uid \<Rightarrow> [GetChatMember (chat_id m) uid,
                   Reply m (case gcm (chat_id m) uid of
                              Inl e \<Rightarrow> MustBeAdmin
                            | Inr status \<Rightarrow> OnlyAdmin)])\<rparr>"
  proof (cases "from_user m")
    case None
    then show ?thesis using assms(1-3) ne
      by (simp add: handle_update_def set_topic_def reply_def)
  next
    case (Some uid)
    with assms(4) have "case gcm (chat_id m) uid of Inl e \<Rightarrow> True
             | Inr status \<Rightarrow> status \<noteq> ''administrator'' \<and> status \<noteq> ''creator''"
      by simp
    then show ?thesis using Some assms(1-3) ne
      by (simp add: handle_update_def set_topic_def reply_def Let_def split: sum.splits)
  qed
  then show ?thesis by (simp add: process_batch_def)
qed

section \<open>Adding codes\<close>

lemma update_absent: "k \<notin> set (map fst al) \<Longrightarrow> AList.update k v al = al @ [(k, v)]"
  by (induction al) auto

lemma set_new_codes: "set (new_codes seen cs) = set cs - set seen"
  by (induction seen cs rule: new_codes.induct) auto

lemma distinct_new_codes: "distinct (new_codes seen cs)"
  by (induction seen cs rule: new_codes.induct) (auto simp: set_new_codes)

lemma new_codes_none: "set cands \<subseteq> set seen \<Longrightarrow> new_codes seen cands = []"
  by (induction seen cands rule: new_codes.induct) auto

lemma foldl_add_code:
  "foldl add_code (cs, n) cands =
     (cs @ map fresh (new_codes (map fst cs) cands),
      n + length (new_codes (map fst cs) cands))"
proof (induction cands arbitrary: cs n)
  case Nil
  then show ?case by simp
next
  case (Cons c cands)
  show ?case
  proof (cases "c \<in> set (map fst cs)")
    case True
    then have "add_code (cs, n) c = (cs, n)" by (simp add: add_code_def)
    then show ?thesis using True Cons.IH[of cs n] by simp
  next
    case False
    then have "add_code (cs, n) c = (cs @ [fresh c], n + 1)"
      by (simp add: add_code_def update_absent fresh_def)
    then show ?thesis using False Cons.IH[of "cs @ [fresh c]" "n + 1"]
      by (simp add: fresh_def)
  qed
qed

text \<open>
  C5. The candidate codes of an add command should be the trimmed non-empty lines of the
  text once the leading command token alone is removed (\<open>spec_candidate_codes\<close>). The
  source does not compute that: \<open>text.replace('/add', '')\<close> removes every occurrence
  of the token. For the text \<open>/add\<close>, newline, \<open>A/addB\<close> it computes the candidate
  \<open>AB\<close>, where removing the leading token gives \<open>A/addB\<close>, and it is \<open>AB\<close> that
  is stored.
\<close>

theorem add_strips_every_command_token:
  "candidate_codes ''/add\<newline>A/addB'' = [''AB'']
   \<and> spec_candidate_codes ''/add\<newline>A/addB'' = [''A/addB'']
   \<and> codes (bot_data (handle_update sample_roles (start (bound_state []))
        (upd 10 (topic_msg 8 ''/add\<newline>A/addB'')))) = [fresh ''AB'']"
  by (simp add: candidate_codes_def spec_candidate_codes_def strip_def isspace_def newline_def
      handle_update_def add_command_def add_code_def reply_def startswith_def
      is_correct_topic_def start_def bound_state_def upd_def topic_msg_def fresh_def)

text \<open>
  C6. An add command sent in the bound thread with at least one candidate appends each
  candidate that is not yet a code as a new unused code, once, also when the message
  repeats it; the codes already present are left as they are. The reply carries the number
  of codes added and the number of unused codes, or says that nothing was added when
  every candidate was present already. A second add command in the bound thread with
  the same candidate list, processed on the resulting state, adds nothing, replies that
  nothing was added and changes neither the data nor the mutation flag.
\<close>

theorem add_idempotent:
  assumes "message u = Some m" "msg_text m = Some t" "startswith t ''/add''"
    and "is_correct_topic (bot_data st) m"
    and "candidate_codes t \<noteq> []"
    and "news = new_codes (map fst (codes (bot_data st))) (candidate_codes t)"
    and "st' = handle_update gcm st u"
    and "message u2 = Some m2" "msg_text m2 = Some t2" "startswith t2 ''/add''"
    and "is_correct_topic (bot_data st) m2"
    and "candidate_codes t2 = candidate_codes t"
  shows "codes (bot_data st') = codes (bot_data st) @ map fresh news
       \<and> set news = set (candidate_codes t) - set (map fst (codes (bot_data st)))
       \<and> distinct news
       \<and> config (bot_data st') = config (bot_data st)
       \<and> calls st' = calls st @
           [Reply m (if news = [] then NothingAdded
                     else CodesAdded (length news) (remaining_count (codes (bot_data st'))))]
       \<and> data_changed st' = (data_changed st \<or> news \<noteq> [])
       \<and> handle_update gcm st' u2 = st'\<lparr>calls := calls st' @ [Reply m2 NothingAdded]\<rparr>"
proof -
  let ?cs = "codes (bot_data st)"
  let ?cands = "candidate_codes t"
  have f: "foldl add_code (?cs, 0) ?cands = (?cs @ map fresh news, length news)"
    using assms(6) by (simp add: foldl_add_code)
  have st': "st' = add_command st m t"
    using assms(1-4,7) by (simp add: handle_add)
  have c: "codes (bot_data st') = ?cs @ map fresh news"
    using st' assms(5) f by (simp add: add_command_def Let_def reply_def)
  have cfg: "config (bot_data st') = config (bot_data st)"
    using st' assms(5) f by (simp add: add_command_def Let_def reply_def)
  have calls: "calls st' = calls st @
           [Reply m (if news = [] then NothingAdded
                     else CodesAdded (length news) (remaining_count (codes (bot_data st'))))]"
    using st' assms(5) f c by (simp add: add_command_def Let_def reply_def)
  have ch: "data_changed st' = (data_changed st \<or> news \<noteq> [])"
    using st' assms(5) f by (simp add: add_command_def Let_def reply_def)
  have topic': "is_correct_topic (bot_data st') m2"
    using assms(11) cfg by (simp add: is_correct_topic_def)
  have sub: "set ?cands \<subseteq> set (map fst (codes (bot_data st')))"
    using c assms(6) by (auto simp: set_new_codes fresh_def image_iff)
  have f2: "foldl add_code (codes (bot_data st'), 0) ?cands = (codes (bot_data st'), 0)"
    using new_codes_none[OF sub] by (simp add: foldl_add_code)
  have again: "handle_update gcm st' u2 = st'\<lparr>calls := calls st' @ [Reply m2 NothingAdded]\<rparr>"
    using handle_add[OF assms(8-10) topic'] assms(5,12) f2
    by (simp add: add_command_def Let_def reply_def)
  show ?thesis using c cfg calls ch again assms(6)
    by (simp add: set_new_codes distinct_new_codes)
qed

section \<open>The inventory only grows\<close>

lemma kept_refl: "kept cs cs"
  by (simp add: kept_def)

lemma kept_trans: "kept a b \<Longrightarrow> kept b c \<Longrightarrow> kept a c"
  unfolding kept_def by blast

lemma kept_map_entry: "kept cs (AList.map_entry k (\<lambda>d. d\<lparr>is_used := True\<rparr>) cs)"
  by (auto simp: kept_def map_of_map_entry)

lemma kept_append: "kept cs (cs @ map fresh (new_codes (map fst cs) cands))"
proof -
  have "map_of cs k = Some d \<Longrightarrow>
        map_of (cs @ map fresh (new_codes (map fst cs) cands)) k = Some d" for k d
    by (simp add: map_add_Some_iff)
  then show ?thesis by (simp add: kept_def)
qed

lemma kept_get_command: "kept (codes (bot_data st)) (codes (bot_data (get_command st m)))"
  by (auto simp: get_command_def reply_def Let_def kept_refl kept_map_entry
      split: option.splits)

lemma kept_add_command: "kept (codes (bot_data st)) (codes (bot_data (add_command st m t)))"
  by (auto simp: add_command_def reply_def Let_def kept_refl foldl_add_code kept_append)

lemma codes_set_topic: "codes (bot_data (set_topic gcm st m)) = codes (bot_data st)"
  by (auto simp: set_topic_def reply_def Let_def split: option.splits sum.splits)

lemma kept_handle_update:
  "kept (codes (bot_data st)) (codes (bot_data (handle_update gcm st u)))"
  unfolding handle_update_def Let_def
  by (auto simp: kept_refl codes_set_topic kept_get_command kept_add_command
      intro: kept_trans[OF kept_get_command kept_add_command] split: option.splits)

lemma kept_process_batch:
  "kept (codes (bot_data st)) (codes (bot_data (process_batch gcm st updates)))"
proof (induction updates arbitrary: st)
  case Nil
  then show ?case by (simp add: process_batch_def kept_refl)
next
  case (Cons u us)
  have "kept (codes (bot_data (handle_update gcm st u)))
          (codes (bot_data (process_batch gcm (handle_update gcm st u) us)))"
    by (rule Cons.IH)
  then show ?case
    using kept_trans[OF kept_handle_update] by (simp add: process_batch_def)
qed

text \<open>
  C4. Whatever the batch and whatever the role lookups answer: a code that is in the
  inventory before the batch is in it afterwards under the same key, and if it was used
  before it is used afterwards.
\<close>

theorem codes_never_removed_or_unused:
  assumes "map_of (codes (bot_data st)) k = Some d"
  shows "\<exists>d'. map_of (codes (bot_data (process_batch gcm st updates))) k = Some d' \<and>
           (is_used d \<longrightarrow> is_used d')"
  using kept_process_batch[of st gcm updates] assms by (simp add: kept_def)

section \<open>Inventories built by the bot\<close>

text \<open>
  Processing a batch keeps the inventory well formed: starting from the default state, the
  keys stay distinct and no code is the empty string, since the add command drops empty
  lines.
\<close>

lemma candidate_codes_nonempty: "[] \<notin> set (candidate_codes t)"
  by (auto simp: candidate_codes_def Let_def)

lemma wf_codes_append:
  assumes "wf_codes cs" "[] \<notin> set cands"
  shows "wf_codes (cs @ map fresh (new_codes (map fst cs) cands))"
proof -
  let ?news = "new_codes (map fst cs) cands"
  have m: "map fst (cs @ map fresh ?news) = map fst cs @ ?news"
    by (simp add: fresh_def comp_def)
  have "set (map fst cs) \<inter> set ?news = {}"
    by (auto simp: set_new_codes)
  moreover have "[] \<notin> set ?news"
    using assms(2) by (simp add: set_new_codes)
  ultimately show ?thesis using assms(1)
    unfolding wf_codes_def m by (simp add: distinct_new_codes)
qed

lemma wf_codes_map_entry: "wf_codes cs \<Longrightarrow> wf_codes (AList.map_entry k f cs)"
proof -
  assume w: "wf_codes cs"
  have "set (map fst (AList.map_entry k f cs)) = set (map fst cs)"
    using dom_map_entry[of k f cs] by simp
  then show ?thesis using w by (simp add: wf_codes_def distinct_map_entry del: set_map)
qed

lemma wf_codes_get_command:
  "wf_codes (codes (bot_data st)) \<Longrightarrow> wf_codes (codes (bot_data (get_command st m)))"
  by (auto simp: get_command_def reply_def Let_def wf_codes_map_entry split: option.splits)

lemma wf_codes_add_command:
  "wf_codes (codes (bot_data st)) \<Longrightarrow> wf_codes (codes (bot_data (add_command st m t)))"
  by (auto simp: add_command_def reply_def Let_def foldl_add_code
      wf_codes_append candidate_codes_nonempty)

lemma wf_codes_handle_update:
  "wf_codes (codes (bot_data st)) \<Longrightarrow> wf_codes (codes (bot_data (handle_update gcm st u)))"
  unfolding handle_update_def Let_def
  by (auto simp: codes_set_topic wf_codes_get_command wf_codes_add_command
      split: option.splits)

lemma wf_codes_process_batch:
  "wf_codes (codes (bot_data st)) \<Longrightarrow>
   wf_codes (codes (bot_data (process_batch gcm st updates)))"
proof (induction updates arbitrary: st)
  case Nil
  then show ?case by (simp add: process_batch_def)
next
  case (Cons u us)
  have "wf_codes (codes (bot_data (process_batch gcm (handle_update gcm st u) us)))"
    using Cons.prems by (intro Cons.IH wf_codes_handle_update)
  then show ?case by (simp add: process_batch_def)
qed

lemma wf_codes_default: "wf_codes (codes default_data)"
  by (simp add: wf_codes_def default_data_def)

lemma wf_codes_unused: "wf_codes cs \<Longrightarrow> distinct (map fst cs) \<and> [] \<notin> set (unused_codes cs)"
  by (auto simp: wf_codes_def unused_codes_def)

section \<open>The mutation flag\<close>

lemma flag_tracks_refl: "flag_tracks st st"
  by (simp add: flag_tracks_def)

lemma flag_tracks_trans: "flag_tracks a b \<Longrightarrow> flag_tracks b c \<Longrightarrow> flag_tracks a c"
  by (auto simp: flag_tracks_def)

lemma flag_tracks_try_call: "try_call raises st c = Inr st' \<Longrightarrow> flag_tracks st st'"
  by (auto simp: try_call_def flag_tracks_def split: if_splits)

lemma flag_tracks_try_call_flagged:
  "try_call raises st1 c = Inr st2 \<Longrightarrow> flag_tracks st (st2\<lparr>data_changed := True\<rparr>)"
  by (simp add: flag_tracks_def)

lemma flag_tracks_set_topic:
  assumes "set_topic_exn raises gcm st m = Inr st'"
  shows "flag_tracks st st'"
proof (cases "from_user m")
  case None
  then show ?thesis using assms by (simp add: set_topic_exn_def flag_tracks_try_call)
next
  case (Some uid)
  let ?st1 = "st\<lparr>calls := calls st @ [GetChatMember (chat_id m) uid]\<rparr>"
  have one: "flag_tracks st ?st1" by (simp add: flag_tracks_def)
  have lift: "try_call raises (?st1\<lparr>calls := cs\<rparr>) c = Inr st' \<Longrightarrow> flag_tracks st st'" for cs c
    by (auto simp: try_call_def flag_tracks_def split: if_splits)
  have lift1: "try_call raises ?st1 c = Inr st' \<Longrightarrow> flag_tracks st st'" for c
    by (auto simp: try_call_def flag_tracks_def split: if_splits)
  show ?thesis
  proof (cases "gcm (chat_id m) uid")
    case (Inl e)
    then show ?thesis using assms Some lift1 by (simp add: set_topic_exn_def Let_def)
  next
    case (Inr status)
    show ?thesis
    proof (cases "status \<notin> set [''administrator'', ''creator'']")
      case True
      then show ?thesis using assms Some Inr lift lift1
        by (auto simp: set_topic_exn_def Let_def split: sum.splits raised.splits)
    next
      case False
      then show ?thesis using assms Some Inr lift1
        by (auto simp: set_topic_exn_def Let_def flag_tracks_def split: sum.splits if_splits)
    qed
  qed
qed

lemma try_call_Inr:
  "try_call raises st c = Inr st' \<Longrightarrow> st' = st\<lparr>calls := calls st @ [c]\<rparr>"
  by (auto simp: try_call_def split: if_splits)

lemma flag_tracks_get_command:
  assumes "get_command_exn raises st m = Inr st'"
  shows "flag_tracks st st'"
proof (cases "first_unused (codes (bot_data st))")
  case None
  then show ?thesis using assms by (simp add: get_command_exn_def flag_tracks_try_call)
next
  case (Some code_to_send)
  show ?thesis
  proof (cases "code_to_send = []")
    case True
    then show ?thesis using assms Some by (simp add: get_command_exn_def flag_tracks_try_call)
  next
    case False
    then show ?thesis using assms Some
      by (auto simp: get_command_exn_def Let_def flag_tracks_def split: sum.splits)
  qed
qed

lemma add_code_none_added:
  assumes "snd (foldl add_code (cs, 0) cands) = 0"
  shows "fst (foldl add_code (cs, 0) cands) = cs"
  using assms by (simp add: foldl_add_code)

lemma flag_tracks_add_command:
  assumes "add_command_exn raises st m t = Inr st'"
  shows "flag_tracks st st'"
proof (cases "candidate_codes t = []")
  case True
  then show ?thesis using assms by (simp add: add_command_exn_def flag_tracks_try_call)
next
  case False
  let ?r = "foldl add_code (codes (bot_data st), 0) (candidate_codes t)"
  show ?thesis
  proof (cases "snd ?r > 0")
    case True
    then show ?thesis using assms False
      by (auto simp: add_command_exn_def Let_def flag_tracks_def split: sum.splits)
  next
    case z: False
    then have "fst ?r = codes (bot_data st)" by (simp add: add_code_none_added)
    then show ?thesis using assms False z
      by (auto simp: add_command_exn_def Let_def flag_tracks_try_call)
  qed
qed

lemma flag_tracks_handle_update:
  assumes "handle_update_exn raises gcm st u = Inr st'"
  shows "flag_tracks st st'"
proof (cases "message u")
  case None
  then show ?thesis using assms by (simp add: handle_update_exn_def flag_tracks_refl)
next
  case (Some m)
  show ?thesis
  proof (cases "msg_text m")
    case None
    then show ?thesis using assms Some by (simp add: handle_update_exn_def flag_tracks_refl)
  next
    case t: (Some t)
    consider (empty) "t = []"
      | (other) "t \<noteq> []" "\<not> startswith t ''/set_topic''" "\<not> is_correct_topic (bot_data st) m"
      | (bind) "t \<noteq> []" "startswith t ''/set_topic''"
      | (cmd) "t \<noteq> []" "\<not> startswith t ''/set_topic''" "is_correct_topic (bot_data st) m"
      by blast
    then show ?thesis
    proof cases
      case empty
      then show ?thesis using assms Some t
        by (simp add: handle_update_exn_def flag_tracks_refl)
    next
      case other
      then show ?thesis using assms Some t
        by (simp add: handle_update_exn_def flag_tracks_refl)
    next
      case bind
      then show ?thesis using assms Some t
        by (simp add: handle_update_exn_def flag_tracks_set_topic)
    next
      case cmd
      obtain st1 where g: "(if startswith t ''/get'' then get_command_exn raises st m
                            else Inr st) = Inr st1"
        and a: "(if startswith t ''/add'' then add_command_exn raises st1 m t else Inr st1)
                  = Inr st'"
        using assms Some t cmd by (auto simp: handle_update_exn_def split: sum.splits)
      have "flag_tracks st st1"
        using g by (auto simp: flag_tracks_get_command flag_tracks_refl split: if_splits)
      moreover have "flag_tracks st1 st'"
        using a by (auto simp: flag_tracks_add_command flag_tracks_refl split: if_splits)
      ultimately show ?thesis by (rule flag_tracks_trans)
    qed
  qed
qed

lemma flag_tracks_process_batch:
  "process_batch_exn raises gcm st updates = Inr st' \<Longrightarrow> flag_tracks st st'"
proof (induction updates arbitrary: st)
  case Nil
  then show ?case by (simp add: flag_tracks_refl)
next
  case (Cons u us)
  then obtain st1 where s: "handle_update_exn raises gcm st u = Inr st1"
    and r: "process_batch_exn raises gcm st1 us = Inr st'"
    by (auto split: sum.splits)
  show ?case
    using flag_tracks_trans[OF flag_tracks_handle_update[OF s] Cons.IH[OF r]] .
qed

section \<open>The store writes of one invocation\<close>

lemma sorted_last_Max:
  fixes xs :: "int list"
  assumes "sorted xs" "xs \<noteq> []"
  shows "last xs = Max (set xs)"
proof -
  have "\<forall>y\<in>set xs. y \<le> last xs"
    using assms by (induction xs) auto
  moreover have "last xs \<in> set xs" using assms by simp
  ultimately show ?thesis by (intro Max_eqI[symmetric]) auto
qed

lemma process_updates_raised:
  assumes "get_updates (map_option (\<lambda>n. n + 1) (offset_key r)) = Inr updates" "updates \<noteq> []"
    and "process_batch_exn raises gcm
           \<lparr>bot_data = load_data r, data_changed = False, calls = []\<rparr> updates = Inl (Raised cs)"
  shows "process_updates get_updates gcm raises set_raises r =
           \<lparr>store = r, issued = cs, aborted = True\<rparr>"
  using assms by (simp add: process_updates_def)

lemma process_updates_completed:
  assumes "get_updates (map_option (\<lambda>n. n + 1) (offset_key r)) = Inr updates" "updates \<noteq> []"
    and "process_batch_exn raises gcm
           \<lparr>bot_data = load_data r, data_changed = False, calls = []\<rparr> updates = Inr st"
  shows "process_updates get_updates gcm raises set_raises r =
     (if data_changed st \<and> set_raises (SetData (bot_data st))
      then \<lparr>store = r, issued = calls st, aborted = True\<rparr>
      else if set_raises (SetOffset (update_id (last updates)))
      then \<lparr>store = (if data_changed st then save_data (bot_data st) r else r),
            issued = calls st, aborted = True\<rparr>
      else \<lparr>store = set_offset (update_id (last updates))
                      (if data_changed st then save_data (bot_data st) r else r),
            issued = calls st, aborted = False\<rparr>)"
  using assms by (simp add: process_updates_def Let_def)

text \<open>
  C3 (amended). After a non-empty batch has been fetched (in ascending order of update id,
  as the gateway delivers it), and provided that no exception ends the run (the loop
  completes and the store accepts the writes), the invocation writes the cursor key
  exactly once, whether or not a message mutated the state, and returns; the value
  written is the update id of the last update, the highest update id of the batch.
\<close>

theorem cursor_written_once:
  assumes "get_updates (map_option (\<lambda>n. n + 1) (offset_key r)) = Inr updates"
    and "updates \<noteq> []"
    and "process_batch_exn raises gcm
           \<lparr>bot_data = load_data r, data_changed = False, calls = []\<rparr> updates = Inr st"
    and "\<forall>w. \<not> set_raises w"
    and "res = process_updates get_updates gcm raises set_raises r"
  shows "filter is_offset_write (drop (length (set_log r)) (set_log (store res)))
           = [SetOffset (update_id (last updates))]
       \<and> offset_key (store res) = Some (update_id (last updates))
       \<and> \<not> aborted res
       \<and> (sorted (map update_id updates) \<longrightarrow>
            update_id (last updates) = Max (set (map update_id updates)))"
proof -
  have "sorted (map update_id updates) \<Longrightarrow>
        update_id (last updates) = Max (set (map update_id updates))"
    using sorted_last_Max[of "map update_id updates"] assms(2) by (simp add: last_map)
  then show ?thesis using assms(4,5)
    by (simp add: process_updates_completed[where get_updates = get_updates
          and set_raises = set_raises, OF assms(1-3)]
        set_offset_def save_data_def is_offset_write_def)
qed

text \<open>
  C9. When the fetch raises, or returns no update, the invocation returns and leaves the
  store exactly as it found it (state blob, cursor and write log) and issues no gateway
  call; the next invocation therefore asks for the same offset.
\<close>

theorem no_write_without_updates:
  "get_updates (map_option (\<lambda>n. n + 1) (offset_key r)) = Inl e \<or>
   get_updates (map_option (\<lambda>n. n + 1) (offset_key r)) = Inr [] \<Longrightarrow>
   process_updates get_updates gcm raises set_raises r =
     \<lparr>store = r, issued = [], aborted = False\<rparr>"
  by (auto simp: process_updates_def Let_def)

text \<open>
  C10. Take any invocation on a non-empty batch, whatever raises in it, in which the cursor
  write has been issued. Then the loop has completed, and the store holds the state as the
  batch left it. If the batch mutated the state, the invocation has issued exactly two
  writes, in this order: the state blob as it is after the batch, then the cursor; and
  the blob in the store is that state.
\<close>

theorem state_written_before_cursor:
  assumes "get_updates (map_option (\<lambda>n. n + 1) (offset_key r)) = Inr updates"
    and "updates \<noteq> []"
    and "res = process_updates get_updates gcm raises set_raises r"
    and "filter is_offset_write (drop (length (set_log r)) (set_log (store res))) \<noteq> []"
  shows "case process_batch_exn raises gcm
                \<lparr>bot_data = load_data r, data_changed = False, calls = []\<rparr> updates of
           Inl x \<Rightarrow> False
         | Inr st \<Rightarrow>
             load_data (store res) = bot_data st
             \<and> (bot_data st \<noteq> load_data r \<longrightarrow>
                  set_log (store res) =
                    set_log r @ [SetData (bot_data st), SetOffset (update_id (last updates))]
                  \<and> data_key (store res) = Some (bot_data st))"
proof (cases "process_batch_exn raises gcm
                \<lparr>bot_data = load_data r, data_changed = False, calls = []\<rparr> updates")
  case (Inl x)
  obtain cs where "x = Raised cs" by (cases x)
  then have "res = \<lparr>store = r, issued = cs, aborted = True\<rparr>"
    using process_updates_raised[where get_updates = get_updates and raises = raises
        and gcm = gcm and cs = cs and set_raises = set_raises, OF assms(1,2)] Inl assms(3)
    by simp
  then show ?thesis using assms(4) by simp
next
  case (Inr st)
  have ft: "flag_tracks \<lparr>bot_data = load_data r, data_changed = False, calls = []\<rparr> st"
    using flag_tracks_process_batch[OF Inr] .
  have res: "res =
     (if data_changed st \<and> set_raises (SetData (bot_data st))
      then \<lparr>store = r, issued = calls st, aborted = True\<rparr>
      else if set_raises (SetOffset (update_id (last updates)))
      then \<lparr>store = (if data_changed st then save_data (bot_data st) r else r),
            issued = calls st, aborted = True\<rparr>
      else \<lparr>store = set_offset (update_id (last updates))
                      (if data_changed st then save_data (bot_data st) r else r),
            issued = calls st, aborted = False\<rparr>)"
    using process_updates_completed[where get_updates = get_updates
        and set_raises = set_raises, OF assms(1,2) Inr] assms(3)
    by simp
  have written: "store res = set_offset (update_id (last updates))
                      (if data_changed st then save_data (bot_data st) r else r)"
    using res assms(4)
    by (auto simp: save_data_def is_offset_write_def split: if_splits)
  show ?thesis
  proof (cases "data_changed st")
    case True
    then show ?thesis using Inr written
      by (simp add: set_offset_def save_data_def load_data_def)
  next
    case False
    then have "bot_data st = load_data r" using ft by (simp add: flag_tracks_def)
    then show ?thesis using Inr written False
      by (simp add: set_offset_def load_data_def)
  qed
qed

section \<open>The properties at concrete inputs\<close>

lemmas sample_defs = sample_roles_def topic_msg_def other_msg_def upd_def bound_state_def
  start_def used_code_def fresh_def empty_store_def fetch_fixed_def fetch_failing_def
  all_delivered_def sends_raise_def replies_raise_def store_up_def bound_store_def

lemmas source_defs = handle_update_def set_topic_def get_command_def add_command_def
  add_code_def reply_def is_correct_topic_def first_unused_def remaining_count_def
  unused_def startswith_def candidate_codes_def strip_def isspace_def newline_def
  process_batch_def process_updates_def load_data_def default_data_def save_data_def
  set_offset_def try_call_def set_topic_exn_def get_command_exn_def add_command_exn_def
  handle_update_exn_def

text \<open>
  Three codes, the first one used already, and a gateway on which nothing raises: two
  allocate commands hand out \<open>B2\<close> and \<open>C3\<close>, the third one is answered with the
  exhaustion reply.
\<close>

theorem allocate_all_then_exhausted_witness:
  "process_batch_exn all_delivered sample_roles
     (start (bound_state [used_code ''A1'', fresh ''B2'', fresh ''C3'']))
     [upd 10 (topic_msg 8 ''/get''), upd 11 (topic_msg 8 ''/get one more'')]
   = Inr \<lparr>bot_data = bound_state [used_code ''A1'', used_code ''B2'', used_code ''C3''],
      data_changed = True,
      calls = [SendMessage (Some 1) (Some 5) (CodeSent ''B2'' 1),
               SendMessage (Some 1) (Some 5) (CodeSent ''C3'' 0)]\<rparr>
   \<and> handle_update_exn all_delivered sample_roles
       \<lparr>bot_data = bound_state [used_code ''A1'', used_code ''B2'', used_code ''C3''],
        data_changed = True,
        calls = [SendMessage (Some 1) (Some 5) (CodeSent ''B2'' 1),
                 SendMessage (Some 1) (Some 5) (CodeSent ''C3'' 0)]\<rparr>
       (upd 12 (topic_msg 8 ''/get''))
   = Inr \<lparr>bot_data = bound_state [used_code ''A1'', used_code ''B2'', used_code ''C3''],
      data_changed = True,
      calls = [SendMessage (Some 1) (Some 5) (CodeSent ''B2'' 1),
               SendMessage (Some 1) (Some 5) (CodeSent ''C3'' 0),
               Reply (topic_msg 8 ''/get'') CodesExhausted]\<rparr>"
proof -
  let ?st = "start (bound_state [used_code ''A1'', fresh ''B2'', fresh ''C3''])"
  let ?us = "[upd 10 (topic_msg 8 ''/get''), upd 11 (topic_msg 8 ''/get one more'')]"
  let ?st' = "\<lparr>bot_data = bound_state [used_code ''A1'', used_code ''B2'', used_code ''C3''],
      data_changed = True,
      calls = [SendMessage (Some 1) (Some 5) (CodeSent ''B2'' 1),
               SendMessage (Some 1) (Some 5) (CodeSent ''C3'' 0)]\<rparr>"
  have h1: "distinct (map fst (codes (bot_data ?st)))"
    by (simp add: sample_defs)
  have h2: "[] \<notin> set (unused_codes (codes (bot_data ?st)))"
    by (simp add: sample_defs unused_codes_def unused_def)
  have h3: "target_chat_id (config (bot_data ?st)) = Some 1"
    by (simp add: sample_defs)
  have h4: "target_thread_id (config (bot_data ?st)) = Some 5"
    by (simp add: sample_defs)
  have h5: "\<forall>u\<in>set ?us. get_in_topic 1 (Some 5) u"
    by (simp add: sample_defs get_in_topic_def startswith_def)
  have h6: "length ?us = remaining_count (codes (bot_data ?st))"
    by (simp add: sample_defs remaining_count_def unused_def)
  have h7: "get_in_topic 1 (Some 5) (upd 12 (topic_msg 8 ''/get''))"
    by (simp add: sample_defs get_in_topic_def startswith_def)
  have h8: "message (upd 12 (topic_msg 8 ''/get'')) = Some (topic_msg 8 ''/get'')"
    by (simp add: sample_defs)
  have h9: "\<forall>h c. \<not> all_delivered h c"
    by (simp add: all_delivered_def)
  have u: "unused_codes (codes (bot_data ?st)) = [''B2'', ''C3'']"
    by (simp add: sample_defs unused_codes_def unused_def)
  have a: "all_used (codes (bot_data ?st)) =
             [used_code ''A1'', used_code ''B2'', used_code ''C3'']"
    by (simp add: sample_defs all_used_def)
  have n: "[0..<length ?us] = [0, Suc 0]"
    by (simp add: upt_rec)
  have h10: "?st' = ?st\<lparr>bot_data := (bot_data ?st)\<lparr>codes := all_used (codes (bot_data ?st))\<rparr>,
        calls := calls ?st @
          map (\<lambda>i. SendMessage (Some 1) (Some 5)
                 (CodeSent (unused_codes (codes (bot_data ?st)) ! i) (length ?us - Suc i)))
              [0..<length ?us],
        data_changed := (data_changed ?st \<or> ?us \<noteq> [])\<rparr>"
    unfolding u a n by (simp add: start_def bound_state_def)
  note run = allocate_all_then_exhausted[OF h1 h2 h3 h4 h5 h6 h7 h8 h9 h10, of sample_roles]
  have "process_batch_exn all_delivered sample_roles ?st ?us = Inr ?st'"
    by (rule run[THEN conjunct1])
  moreover have "handle_update_exn all_delivered sample_roles ?st' (upd 12 (topic_msg 8 ''/get''))
      = Inr (?st'\<lparr>calls := calls ?st' @ [Reply (topic_msg 8 ''/get'') CodesExhausted]\<rparr>)"
    by (rule run[THEN conjunct2, THEN conjunct2, THEN conjunct2])
  ultimately show ?thesis by simp
qed

text \<open>
  C1 as stated fails when the send raises: the store holds one unused code, \<open>B2\<close>, and
  the allocate command arrives in the bound thread. The send of line 116 raises, the loop
  ends there, and the invocation writes nothing: no code has been handed out, \<open>B2\<close> is
  still unused in the store, no mutation is reported and the cursor stays where it was.
\<close>

theorem allocate_send_raises_counterexample:
  "remaining_count (codes (load_data (bound_store [fresh ''B2'']))) = 1
   \<and> process_batch_exn sends_raise sample_roles
        (start (load_data (bound_store [fresh ''B2''])))
        [upd 10 (topic_msg 8 ''/get'')]
     = Inl (Raised [SendMessage (Some 1) (Some 5) (CodeSent ''B2'' 0)])
   \<and> process_updates (fetch_fixed [upd 10 (topic_msg 8 ''/get'')]) sample_roles sends_raise
        store_up (bound_store [fresh ''B2''])
     = \<lparr>store = bound_store [fresh ''B2''],
        issued = [SendMessage (Some 1) (Some 5) (CodeSent ''B2'' 0)],
        aborted = True\<rparr>"
  by (simp add: sample_defs source_defs)

theorem other_topic_ignored_witness:
  "handle_update sample_roles (start (bound_state [fresh ''B2''])) (upd 10 (other_msg 8 ''/get''))
     = start (bound_state [fresh ''B2''])
   \<and> handle_update sample_roles (start default_data) (upd 11 (topic_msg 8 ''/add\<newline>X''))
     = start default_data"
proof -
  have a: "message (upd 10 (other_msg 8 ''/get'')) = Some (other_msg 8 ''/get'')"
    by (simp add: sample_defs)
  have b: "case msg_text (other_msg 8 ''/get'') of
             None \<Rightarrow> True | Some t \<Rightarrow> \<not> startswith t ''/set_topic''"
    by (simp add: sample_defs startswith_def)
  have c: "\<not> is_correct_topic (bot_data (start (bound_state [fresh ''B2'']))) (other_msg 8 ''/get'')
           \<or> target_chat_id (config (bot_data (start (bound_state [fresh ''B2''])))) = None"
    by (simp add: sample_defs is_correct_topic_def)
  have a': "message (upd 11 (topic_msg 8 ''/add\<newline>X'')) = Some (topic_msg 8 ''/add\<newline>X'')"
    by (simp add: sample_defs)
  have b': "case msg_text (topic_msg 8 ''/add\<newline>X'') of
             None \<Rightarrow> True | Some t \<Rightarrow> \<not> startswith t ''/set_topic''"
    by (simp add: sample_defs startswith_def)
  have c': "\<not> is_correct_topic (bot_data (start default_data)) (topic_msg 8 ''/add\<newline>X'')
           \<or> target_chat_id (config (bot_data (start default_data))) = None"
    by (simp add: sample_defs default_data_def)
  show ?thesis
    using other_topic_ignored[OF a b c, of sample_roles]
      other_topic_ignored[OF a' b' c', of sample_roles]
    by simp
qed

text \<open>
  A batch in ascending order, none of whose messages mutates the state, on a gateway and
  a store where nothing raises: the only write is the cursor, set to 11.
\<close>

theorem cursor_written_once_witness:
  "store (process_updates
       (fetch_fixed [upd 10 (other_msg 8 ''/get''), upd 11 (other_msg 8 ''hello'')])
       sample_roles all_delivered store_up empty_store)
     = \<lparr>data_key = None, offset_key = Some 11, set_log = [SetOffset 11]\<rparr>
   \<and> filter is_offset_write (drop (length (set_log empty_store)) (set_log (store
       (process_updates
          (fetch_fixed [upd 10 (other_msg 8 ''/get''), upd 11 (other_msg 8 ''hello'')])
          sample_roles all_delivered store_up empty_store))))
     = [SetOffset 11]
   \<and> Max (set (map update_id [upd 10 (other_msg 8 ''/get''), upd 11 (other_msg 8 ''hello'')]))
     = 11"
proof -
  let ?us = "[upd 10 (other_msg 8 ''/get''), upd 11 (other_msg 8 ''hello'')]"
  have a: "fetch_fixed ?us (map_option (\<lambda>n. n + 1) (offset_key empty_store)) = Inr ?us"
    by (simp add: fetch_fixed_def)
  have b: "?us \<noteq> []" by simp
  have c: "process_batch_exn all_delivered sample_roles
             \<lparr>bot_data = load_data empty_store, data_changed = False, calls = []\<rparr> ?us
           = Inr \<lparr>bot_data = default_data, data_changed = False, calls = []\<rparr>"
    by (simp add: sample_defs source_defs)
  have d: "\<forall>w. \<not> store_up w" by (simp add: store_up_def)
  have s: "sorted (map update_id ?us)" by (simp add: sample_defs)
  have l: "update_id (last ?us) = 11" by (simp add: sample_defs)
  have w: "store (process_updates (fetch_fixed ?us) sample_roles all_delivered store_up
             empty_store)
           = \<lparr>data_key = None, offset_key = Some 11, set_log = [SetOffset 11]\<rparr>"
    by (simp add: sample_defs source_defs)
  show ?thesis
    using cursor_written_once[where get_updates = "fetch_fixed ?us" and r = empty_store
        and updates = ?us and gcm = sample_roles and raises = all_delivered
        and set_raises = store_up, OF a b c d refl] s w
    unfolding l by simp
qed

text \<open>
  C3 as stated fails when a reply raises: the batch holds one update, an add command
  without codes sent in the bound thread. The usage reply of line 132 raises, and the
  invocation ends without writing the cursor, which stays at 9.
\<close>

theorem cursor_not_written_when_reply_raises_counterexample:
  "fetch_fixed [upd 10 (topic_msg 8 ''/add'')]
       (map_option (\<lambda>n. n + 1) (offset_key (bound_store [])))
     = Inr [upd 10 (topic_msg 8 ''/add'')]
   \<and> process_updates (fetch_fixed [upd 10 (topic_msg 8 ''/add'')]) sample_roles
        replies_raise store_up (bound_store [])
     = \<lparr>store = \<lparr>data_key = Some (bound_state []), offset_key = Some 9, set_log = []\<rparr>,
        issued = [Reply (topic_msg 8 ''/add'') AddUsage],
        aborted = True\<rparr>"
  by (simp add: sample_defs source_defs)

theorem codes_never_removed_or_unused_witness:
  "map_of (codes (bot_data (start (bound_state [used_code ''A1'', fresh ''B2''])))) ''A1''
     = Some \<lparr>is_used = True\<rparr>
   \<and> (\<exists>d'. map_of (codes (bot_data (process_batch sample_roles
          (start (bound_state [used_code ''A1'', fresh ''B2'']))
          [upd 10 (topic_msg 8 ''/get''), upd 11 (topic_msg 8 ''/add\<newline>Z9'')]))) ''A1''
        = Some d' \<and> is_used d')"
proof -
  have a: "map_of (codes (bot_data (start (bound_state [used_code ''A1'', fresh ''B2''])))) ''A1''
     = Some \<lparr>is_used = True\<rparr>"
    by (simp add: sample_defs)
  show ?thesis
    using a codes_never_removed_or_unused[OF a, of sample_roles
        "[upd 10 (topic_msg 8 ''/get''), upd 11 (topic_msg 8 ''/add\<newline>Z9'')]"]
    by simp
qed

text \<open>
  The scenario \<open>/add\<close>, \<open>X\<close>, \<open>X\<close>, \<open>Y\<close> on an empty inventory: two codes are added, and
  the same message sent again adds nothing.
\<close>

theorem add_idempotent_witness:
  "handle_update sample_roles (start (bound_state []))
      (upd 10 (topic_msg 8 ''/add\<newline>X\<newline>X\<newline>Y''))
   = \<lparr>bot_data = bound_state [fresh ''X'', fresh ''Y''], data_changed = True,
      calls = [Reply (topic_msg 8 ''/add\<newline>X\<newline>X\<newline>Y'') (CodesAdded 2 2)]\<rparr>
   \<and> handle_update sample_roles
       (handle_update sample_roles (start (bound_state []))
          (upd 10 (topic_msg 8 ''/add\<newline>X\<newline>X\<newline>Y'')))
       (upd 11 (topic_msg 8 ''/add\<newline>X\<newline>X\<newline>Y''))
   = \<lparr>bot_data = bound_state [fresh ''X'', fresh ''Y''], data_changed = True,
      calls = [Reply (topic_msg 8 ''/add\<newline>X\<newline>X\<newline>Y'') (CodesAdded 2 2),
               Reply (topic_msg 8 ''/add\<newline>X\<newline>X\<newline>Y'') NothingAdded]\<rparr>"
proof -
  let ?t = "''/add\<newline>X\<newline>X\<newline>Y''"
  let ?m = "topic_msg 8 ?t"
  let ?st = "start (bound_state [])"
  have c: "candidate_codes ?t = [''X'', ''X'', ''Y'']"
    by (simp add: candidate_codes_def strip_def isspace_def newline_def)
  have h1: "message (upd 10 ?m) = Some ?m" by (simp add: sample_defs)
  have h1': "message (upd 11 ?m) = Some ?m" by (simp add: sample_defs)
  have h2: "msg_text ?m = Some ?t" by (simp add: sample_defs)
  have h3: "startswith ?t ''/add''" by (simp add: startswith_def)
  have h4: "is_correct_topic (bot_data ?st) ?m" by (simp add: sample_defs is_correct_topic_def)
  have h5: "candidate_codes ?t \<noteq> []" by (simp add: c)
  have n: "new_codes (map fst (codes (bot_data ?st))) (candidate_codes ?t) = [''X'', ''Y'']"
    by (simp add: c sample_defs)
  have first: "handle_update sample_roles ?st (upd 10 ?m)
     = \<lparr>bot_data = bound_state [fresh ''X'', fresh ''Y''], data_changed = True,
        calls = [Reply ?m (CodesAdded 2 2)]\<rparr>"
    by (simp add: handle_update_def add_command_def add_code_def reply_def is_correct_topic_def
        remaining_count_def unused_def startswith_def c sample_defs)
  show ?thesis
    using add_idempotent[OF h1 h2 h3 h4 h5 refl refl h1' h2 h3 h4 refl, of sample_roles]
    unfolding n first by simp
qed

theorem bind_overwrites_binding_witness:
  "handle_update sample_roles (start (bound_state [fresh ''B2'']))
      (upd 10 (other_msg 7 ''/set_topic''))
   = \<lparr>bot_data = \<lparr>config = \<lparr>target_chat_id = Some 2, target_thread_id = Some 9\<rparr>,
                   codes = [fresh ''B2'']\<rparr>,
      data_changed = True,
      calls = [GetChatMember 2 7, Reply (other_msg 7 ''/set_topic'') TopicBound]\<rparr>"
proof -
  let ?m = "other_msg 7 ''/set_topic''"
  have h1: "message (upd 10 ?m) = Some ?m" by (simp add: sample_defs)
  have h2: "msg_text ?m = Some ''/set_topic''" by (simp add: sample_defs)
  have h3: "startswith ''/set_topic'' ''/set_topic''" by (simp add: startswith_def)
  have h4: "from_user ?m = Some 7" by (simp add: sample_defs)
  have h5: "sample_roles (chat_id ?m) 7 = Inr ''administrator''" by (simp add: sample_defs)
  have h6: "''administrator'' = ''administrator'' \<or> ''administrator'' = ''creator''" by simp
  have h7: "is_topic_message ?m" by (simp add: sample_defs)
  show ?thesis
    using bind_overwrites_binding[where gcm = sample_roles and m = ?m and uid = 7
        and status = "''administrator''" and st = "start (bound_state [fresh ''B2''])",
        OF h1 h2 h3 h4 h5 h6 h7]
    by (simp add: sample_defs)
qed

theorem bind_denied_without_role_witness:
  "handle_update sample_roles (start (bound_state [fresh ''B2''])) (upd 10 (other_msg 8 ''/set_topic''))
   = \<lparr>bot_data = bound_state [fresh ''B2''], data_changed = False,
      calls = [GetChatMember 2 8, Reply (other_msg 8 ''/set_topic'') OnlyAdmin]\<rparr>
   \<and> handle_update sample_roles (start (bound_state [fresh ''B2''])) (upd 11 (other_msg 9 ''/set_topic''))
   = \<lparr>bot_data = bound_state [fresh ''B2''], data_changed = False,
      calls = [GetChatMember 2 9, Reply (other_msg 9 ''/set_topic'') MustBeAdmin]\<rparr>"
proof -
  let ?st = "start (bound_state [fresh ''B2''])"
  have h3: "startswith ''/set_topic'' ''/set_topic''" by (simp add: startswith_def)
  have a1: "message (upd 10 (other_msg 8 ''/set_topic'')) = Some (other_msg 8 ''/set_topic'')"
    by (simp add: sample_defs)
  have a2: "msg_text (other_msg 8 ''/set_topic'') = Some ''/set_topic''"
    by (simp add: sample_defs)
  have a4: "from_user (other_msg 8 ''/set_topic'') = None \<or>
         (\<exists>uid. from_user (other_msg 8 ''/set_topic'') = Some uid \<and>
            (case sample_roles (chat_id (other_msg 8 ''/set_topic'')) uid of
               Inl e \<Rightarrow> True
             | Inr status \<Rightarrow> status \<noteq> ''administrator'' \<and> status \<noteq> ''creator''))"
    by (simp add: sample_defs)
  have b1: "message (upd 11 (other_msg 9 ''/set_topic'')) = Some (other_msg 9 ''/set_topic'')"
    by (simp add: sample_defs)
  have b2: "msg_text (other_msg 9 ''/set_topic'') = Some ''/set_topic''"
    by (simp add: sample_defs)
  have b4: "from_user (other_msg 9 ''/set_topic'') = None \<or>
         (\<exists>uid. from_user (other_msg 9 ''/set_topic'') = Some uid \<and>
            (case sample_roles (chat_id (other_msg 9 ''/set_topic'')) uid of
               Inl e \<Rightarrow> True
             | Inr status \<Rightarrow> status \<noteq> ''administrator'' \<and> status \<noteq> ''creator''))"
    by (simp add: sample_defs)
  show ?thesis
    using bind_denied_without_role[where gcm = sample_roles
        and m = "other_msg 8 ''/set_topic''" and st = ?st and us = "[]", OF a1 a2 h3 a4]
      bind_denied_without_role[where gcm = sample_roles
        and m = "other_msg 9 ''/set_topic''" and st = ?st and us = "[]", OF b1 b2 h3 b4]
    by (simp add: sample_defs)
qed

theorem no_write_without_updates_witness:
  "process_updates fetch_failing sample_roles all_delivered store_up empty_store
     = \<lparr>store = empty_store, issued = [], aborted = False\<rparr>
   \<and> process_updates (fetch_fixed []) sample_roles all_delivered store_up empty_store
     = \<lparr>store = empty_store, issued = [], aborted = False\<rparr>"
proof -
  have a: "fetch_failing (map_option (\<lambda>n. n + 1) (offset_key empty_store)) = Inl GatewayError \<or>
           fetch_failing (map_option (\<lambda>n. n + 1) (offset_key empty_store)) = Inr []"
    by (simp add: fetch_failing_def)
  have b: "fetch_fixed [] (map_option (\<lambda>n. n + 1) (offset_key empty_store)) = Inl GatewayError \<or>
           fetch_fixed [] (map_option (\<lambda>n. n + 1) (offset_key empty_store)) = Inr []"
    by (simp add: fetch_fixed_def)
  show ?thesis
    using no_write_without_updates[where get_updates = fetch_failing and r = empty_store
        and e = GatewayError and gcm = sample_roles and raises = all_delivered
        and set_raises = store_up, OF a]
      no_write_without_updates[where get_updates = "fetch_fixed []" and r = empty_store
        and e = GatewayError and gcm = sample_roles and raises = all_delivered
        and set_raises = store_up, OF b]
    by simp
qed

text \<open>
  The scenario of the first binding: the state blob with the new binding is written
  first, the cursor second, and the store holds the new binding.
\<close>

theorem state_written_before_cursor_witness:
  "set_log (store (process_updates (fetch_fixed [upd 10 (topic_msg 7 ''/set_topic'')])
      sample_roles all_delivered store_up empty_store))
   = [SetData (bound_state []), SetOffset 10]
   \<and> data_key (store (process_updates (fetch_fixed [upd 10 (topic_msg 7 ''/set_topic'')])
      sample_roles all_delivered store_up empty_store))
   = Some (bound_state [])"
proof -
  let ?us = "[upd 10 (topic_msg 7 ''/set_topic'')]"
  let ?res = "process_updates (fetch_fixed ?us) sample_roles all_delivered store_up empty_store"
  have a: "fetch_fixed ?us (map_option (\<lambda>n. n + 1) (offset_key empty_store)) = Inr ?us"
    by (simp add: fetch_fixed_def)
  have b: "?us \<noteq> []" by simp
  have st: "process_batch_exn all_delivered sample_roles
       \<lparr>bot_data = load_data empty_store, data_changed = False, calls = []\<rparr> ?us
     = Inr \<lparr>bot_data = bound_state [], data_changed = True,
          calls = [GetChatMember 1 7, Reply (topic_msg 7 ''/set_topic'') TopicBound]\<rparr>"
    by (simp add: sample_defs source_defs)
  have w: "filter is_offset_write (drop (length (set_log empty_store)) (set_log (store ?res)))
             \<noteq> []"
    by (simp add: sample_defs source_defs is_offset_write_def)
  have m: "bound_state [] \<noteq> load_data empty_store"
    by (simp add: sample_defs load_data_def default_data_def)
  have l: "update_id (last ?us) = 10" by (simp add: sample_defs)
  show ?thesis
    using state_written_before_cursor[where get_updates = "fetch_fixed ?us"
        and r = empty_store and updates = ?us and gcm = sample_roles
        and raises = all_delivered and set_raises = store_up and res = ?res,
        OF a b refl w] m
    unfolding st l by (simp add: empty_store_def)
qed

end
